theory Spec2Isabelle
  imports Main "HOL-Library.Word"
begin

section \<open>JavaScript strings\<close>

text \<open>
  A JavaScript string is a sequence of UTF-16 code units; \<open>length\<close>, \<open>includes\<close>,
  \<open>endsWith\<close>, \<open>trim\<close> and the \<open>maxLength\<close> attribute of a text area all count and
  compare code units. A string is therefore a list of 16-bit words. A literal of the
  source is written \<open>js ''...''\<close> for its ASCII part; the two emoji of the source are
  written as their surrogate pairs.
\<close>

type_synonym jsstring = "16 word list"

definition js :: "string \<Rightarrow> jsstring" where
  "js s = map of_char s"

text \<open>
  \<open>String.prototype.trim\<close> removes, at both ends, the code units of the ECMAScript
  productions WhiteSpace (TAB, VT, FF, U+FEFF and the Unicode space separators) and
  LineTerminator (LF, CR, U+2028, U+2029). All of them are single code units.
\<close>

definition isWhiteSpace :: "16 word \<Rightarrow> bool" where
  "isWhiteSpace c \<longleftrightarrow>
     c \<in> set [0x0009, 0x000A, 0x000B, 0x000C, 0x000D, 0x0020, 0x00A0, 0x1680,
              0x2000, 0x2001, 0x2002, 0x2003, 0x2004, 0x2005, 0x2006, 0x2007,
              0x2008, 0x2009, 0x200A, 0x2028, 0x2029, 0x202F, 0x205F, 0x3000, 0xFEFF]"

definition trim :: "jsstring \<Rightarrow> jsstring" where
  "trim s = rev (dropWhile isWhiteSpace (rev (dropWhile isWhiteSpace s)))"

text \<open>
  \<open>String.prototype.toLowerCase\<close>. The program uses the lower-cased string only to look
  for the ASCII patterns \<open>hello\<close>, \<open>hi\<close> and \<open>weather\<close>. The code points whose lower-case
  form contains an ASCII letter are the letters A to Z, U+0130 (capital I with dot
  above, which becomes \<open>i\<close> followed by U+0307) and U+212A (the Kelvin sign, which becomes
  \<open>k\<close>); these are mapped as JavaScript maps them. Every other code unit is kept as it
  is: the case tables of the other scripts are not part of this model, and they cannot
  change the outcome of a search for an ASCII pattern.
\<close>

definition lowerUnit :: "16 word \<Rightarrow> jsstring" where
  "lowerUnit c =
     (if 0x41 \<le> c \<and> c \<le> 0x5A then [c + 0x20]
      else if c = 0x130 then [0x69, 0x307]
      else if c = 0x212A then [0x6B]
      else [c])"

definition toLowerCase :: "jsstring \<Rightarrow> jsstring" where
  "toLowerCase s = concat (map lowerUnit s)"

fun startsWith :: "jsstring \<Rightarrow> jsstring \<Rightarrow> bool" where
  "startsWith s [] = True"
| "startsWith [] (p # ps) = False"
| "startsWith (c # cs) (p # ps) = (c = p \<and> startsWith cs ps)"

text \<open>\<open>s.includes(p)\<close>: the pattern starts at some position of \<open>s\<close>.\<close>

fun includes_str :: "jsstring \<Rightarrow> jsstring \<Rightarrow> bool" where
  "includes_str [] p = startsWith [] p"
| "includes_str (c # cs) p = (startsWith (c # cs) p \<or> includes_str cs p)"

definition endsWith :: "jsstring \<Rightarrow> jsstring \<Rightarrow> bool" where
  "endsWith s p \<longleftrightarrow> length p \<le> length s \<and> drop (length s - length p) s = p"

section \<open>The reply generator\<close>

text \<open>The three canned replies of \<open>getFakeAIReply\<close>, and its fallback template.\<close>

definition greetingReply :: jsstring where
  "greetingReply = js ''Hi there! '' @ [0xD83D, 0xDE0A] @ js '' How can I help you?''"

definition weatherReply :: jsstring where
  "weatherReply = js ''I'm just a demo AI, but it's always sunny in the cloud!''"

definition questionReply :: jsstring where
  "questionReply =
     js ''That's a great question! Let me look into it for you. (This is a demo reply)''"

definition echoReply :: "jsstring \<Rightarrow> jsstring" where
  "echoReply userInput =
     js ''You said: '' @ [0x22] @ userInput @ [0x22] @ js ''. How else can I assist?''"

definition getFakeAIReply :: "jsstring \<Rightarrow> jsstring" where
  "getFakeAIReply userInput =
     (if includes_str (toLowerCase userInput) (js ''hello'')
         \<or> includes_str (toLowerCase userInput) (js ''hi'')
      then greetingReply
      else if includes_str (toLowerCase userInput) (js ''weather'')
      then weatherReply
      else if endsWith userInput (js ''?'')
      then questionReply
      else echoReply userInput)"

section \<open>Numbers: the timer delay\<close>

text \<open>
  JavaScript numbers are IEEE 754 binary64 values, and \<open>1000 + Math.random() * 1200\<close>
  is computed in that arithmetic: the product is rounded to the nearest representable
  value (ties to the even significand), then the sum is rounded in the same way.

  Every finite binary64 value is a multiple of \<open>2\<^sup>-\<^sup>1\<^sup>0\<^sup>7\<^sup>4\<close>, the smallest subnormal. A
  non-negative value \<open>k * 2\<^sup>-\<^sup>1\<^sup>0\<^sup>7\<^sup>4\<close> is represented by the natural number \<open>k\<close>; it is a
  binary64 value when \<open>k\<close> has at most 53 significant bits and is below \<open>2\<^sup>1\<^sup>0\<^sup>2\<^sup>4\<close>.
  Negative numbers, infinities and NaN do not occur in the expression.
\<close>

type_synonym double = nat

fun bitLength :: "nat \<Rightarrow> nat" where
  "bitLength k = (if k = 0 then 0 else Suc (bitLength (k div 2)))"

declare bitLength.simps [simp del]

definition isDouble :: "nat \<Rightarrow> bool" where
  "isDouble k \<longleftrightarrow> k < 2 ^ 53 \<or> (k < 2 ^ 2098 \<and> 2 ^ (bitLength k - 53) dvd k)"

text \<open>The number an integer literal of the source denotes.\<close>

definition fromInt :: "nat \<Rightarrow> double" where
  "fromInt n = n * 2 ^ 1074"

text \<open>
  Rounding an exact result \<open>k * 2\<^sup>-\<^sup>1\<^sup>0\<^sup>7\<^sup>4\<close> to 53 significant bits, to nearest, ties to
  even. Below \<open>2\<^sup>5\<^sup>3\<close> units every multiple of the unit is representable. The overflow
  to infinity above \<open>2\<^sup>1\<^sup>0\<^sup>2\<^sup>4\<close> is left out: the operands here are below \<open>2\<^sup>1\<^sup>2\<close>.
\<close>

definition roundNearestEven :: "nat \<Rightarrow> double" where
  "roundNearestEven k =
     (if k < 2 ^ 53 then k
      else let s = bitLength k - 53;
               q = k div 2 ^ s;
               r = k mod 2 ^ s;
               h = 2 ^ (s - 1)
           in (if r < h \<or> (r = h \<and> even q) then q else q + 1) * 2 ^ s)"

text \<open>
  \<open>x * n\<close> for a double \<open>x\<close> and an integer literal \<open>n\<close>, and \<open>x + y\<close>: the exact result
  is a whole number of units, and is rounded once.
\<close>

definition mulInt :: "double \<Rightarrow> nat \<Rightarrow> double" where
  "mulInt x n = roundNearestEven (x * n)"

definition addDouble :: "double \<Rightarrow> double \<Rightarrow> double" where
  "addDouble x y = roundNearestEven (x + y)"

text \<open>
  \<open>Math.random()\<close> returns a binary64 value at least 0 and below 1; the value drawn is
  an input of the model.
\<close>

definition isRandomDraw :: "double \<Rightarrow> bool" where
  "isRandomDraw r \<longleftrightarrow> isDouble r \<and> r < fromInt 1"

text \<open>The second argument of \<open>setTimeout\<close>: \<open>1000 + Math.random() * 1200\<close>.\<close>

definition timeoutDelay :: "double \<Rightarrow> double" where
  "timeoutDelay random = addDouble (fromInt 1000) (mulInt random 1200)"

section \<open>The component state and its handlers\<close>

text \<open>
  A message is an object \<open>{role, content}\<close> of two strings. The state of \<open>App\<close> is its
  three \<open>useState\<close> cells, together with the callbacks that \<open>setTimeout\<close> has scheduled
  and that have not run yet: each holds the delay it was scheduled with and the
  \<open>trimmedInput\<close> its closure captured.

  The handlers are created by a render and close over the constants \<open>input\<close> and
  \<open>isLoading\<close> of that render, while the setters act on the current cells. The two differ
  between a state update and the next render, so the state also records the constants
  of the latest committed render, whose handlers are the ones attached to the page.
\<close>

record message =
  role :: jsstring
  content :: jsstring

record timer =
  delay :: double
  trimmedInput :: jsstring

record render =
  renderInput :: jsstring
  renderIsLoading :: bool

record app =
  messages :: "message list"
  input :: jsstring
  isLoading :: bool
  timers :: "timer list"
  rendered :: render

text \<open>The constants a render of the state \<open>s\<close> gives to its handlers.\<close>

definition renderOf :: "app \<Rightarrow> render" where
  "renderOf s = \<lparr>renderInput = input s, renderIsLoading = isLoading s\<rparr>"

definition seedGreeting :: jsstring where
  "seedGreeting =
     js ''Hello! '' @ [0xD83D, 0xDC4B]
       @ js '' I am Converso, your AI chatbot. How can I help you today?''"

definition initialState :: app where
  "initialState =
     \<lparr>messages = [\<lparr>role = js ''ai'', content = seedGreeting\<rparr>],
      input = [], isLoading = False, timers = [],
      rendered = \<lparr>renderInput = [], renderIsLoading = False\<rparr>\<rparr>"

text \<open>What a handler returns; \<open>handleSendMsg\<close> has no \<open>return\<close> with a value.\<close>

datatype jsvalue = Undefined | StringValue jsstring | BooleanValue bool

text \<open>
  \<open>handleSendMsg\<close> as created by the render \<open>r\<close> and called when the state is \<open>s\<close>. The
  guard and \<open>trimmedInput\<close> read the constants of the render; \<open>setMessages\<close> with its
  updater, \<open>setInput\<close>, \<open>setIsLoading\<close> and \<open>setTimeout\<close> act on the current state. An
  empty string is the only falsy string, so \<open>!trimmedInput\<close> is \<open>trimmedInput = []\<close>.
  \<open>e.preventDefault()\<close> acts on the event only. \<open>random\<close> is the value \<open>Math.random()\<close>
  returns on the accepting path.
\<close>

definition handleSendMsgIn :: "render \<Rightarrow> double \<Rightarrow> app \<Rightarrow> jsvalue \<times> app" where
  "handleSendMsgIn r random s =
     (let trimmedInput = trim (renderInput r) in
      if trimmedInput = [] \<or> renderIsLoading r then (Undefined, s)
      else (Undefined,
            s\<lparr>messages := messages s @ [\<lparr>role = js ''user'', content = trimmedInput\<rparr>],
              input := [],
              isLoading := True,
              timers := timers s
                 @ [\<lparr>delay = timeoutDelay random, trimmedInput = trimmedInput\<rparr>]\<rparr>))"

text \<open>
  The handler of the render of the state \<open>s\<close> itself, called while \<open>s\<close> is current: the
  constants it reads are the cells of \<open>s\<close>.
\<close>

definition handleSendMsg :: "double \<Rightarrow> app \<Rightarrow> jsvalue \<times> app" where
  "handleSendMsg random s = handleSendMsgIn (renderOf s) random s"

text \<open>The callback given to \<open>setTimeout\<close>, run with the state of the time it fires.\<close>

definition timerCallback :: "jsstring \<Rightarrow> app \<Rightarrow> app" where
  "timerCallback trimmed s =
     (let fakeReply = getFakeAIReply trimmed in
      s\<lparr>messages := messages s @ [\<lparr>role = js ''ai'', content = fakeReply\<rparr>],
        isLoading := False\<rparr>)"

text \<open>\<open>handleKeyDown\<close> calls the \<open>handleSendMsg\<close> of its own render.\<close>

definition handleKeyDown ::
  "render \<Rightarrow> jsstring \<Rightarrow> bool \<Rightarrow> double \<Rightarrow> app \<Rightarrow> jsvalue \<times> app" where
  "handleKeyDown r key shiftKey random s =
     (if key = js ''Enter'' \<and> \<not> shiftKey
      then (Undefined, snd (handleSendMsgIn r random s))
      else (Undefined, s))"

text \<open>
  The events of the component: \<open>onChange\<close> of the text area (\<open>setInput\<close> of its value),
  \<open>onSubmit\<close> of the form, \<open>onKeyDown\<close> of the text area, the expiry of the scheduled
  timer at a position of the pending list, and the commit of a new render. The handlers
  that serve an event are those of the latest committed render; a render may or may not
  have been committed between two events, so a handler can be called with constants
  older than the current cells.
\<close>

datatype event =
    Change jsstring
  | Submit double
  | KeyDown jsstring bool double
  | Timeout nat
  | Render

fun dispatch :: "event \<Rightarrow> app \<Rightarrow> app" where
  "dispatch (Change v) s = s\<lparr>input := v\<rparr>"
| "dispatch (Submit random) s = snd (handleSendMsgIn (rendered s) random s)"
| "dispatch (KeyDown key shiftKey random) s =
     snd (handleKeyDown (rendered s) key shiftKey random s)"
| "dispatch (Timeout i) s =
     (if i < length (timers s)
      then timerCallback (trimmedInput (timers s ! i))
             (s\<lparr>timers := take i (timers s) @ drop (Suc i) (timers s)\<rparr>)
      else s)"
| "dispatch Render s = s\<lparr>rendered := renderOf s\<rparr>"

definition run :: "event list \<Rightarrow> app \<Rightarrow> app" where
  "run es s = fold dispatch es s"

text \<open>
  The relation between the loading flag and the history that every event preserves:
  while loading, the last message is the user's and the callback scheduled last captured
  its text; otherwise the last message is the assistant's.
\<close>

definition loadingMatchesLast :: "app \<Rightarrow> bool" where
  "loadingMatchesLast s \<longleftrightarrow>
     messages s \<noteq> []
     \<and> (if isLoading s
        then role (last (messages s)) = js ''user'' \<and> timers s \<noteq> []
             \<and> trimmedInput (last (timers s)) = content (last (messages s))
        else role (last (messages s)) = js ''ai'')"

text \<open>
  The text area carries the attribute \<open>maxLength={2048}\<close>: the browser lets the user enter
  at most that many code units. The number is a literal of the markup; no handler reads
  it. An event respects it when the value an \<open>onChange\<close> delivers is within it.
\<close>

definition maxLength :: nat where
  "maxLength = 2048"

fun withinMaxLength :: "event \<Rightarrow> bool" where
  "withinMaxLength (Change v) = (length v \<le> maxLength)"
| "withinMaxLength (Submit random) = True"
| "withinMaxLength (KeyDown key shiftKey random) = True"
| "withinMaxLength (Timeout i) = True"
| "withinMaxLength Render = True"

text \<open>Two properties of a state that the handlers preserve.\<close>

definition nonEmptyContents :: "app \<Rightarrow> bool" where
  "nonEmptyContents s \<longleftrightarrow> (\<forall>m \<in> set (messages s). content m \<noteq> [])"

definition withinLimits :: "app \<Rightarrow> bool" where
  "withinLimits s \<longleftrightarrow>
     (\<forall>m \<in> set (messages s).
        (role m = js ''user'' \<longrightarrow> length (content m) \<le> maxLength)
        \<and> length (content m) \<le> maxLength + 36)
     \<and> length (input s) \<le> maxLength
     \<and> length (renderInput (rendered s)) \<le> maxLength
     \<and> (\<forall>t \<in> set (timers s). length (trimmedInput t) \<le> maxLength)"

section \<open>Facts about the string operations\<close>

lemma startsWith_iff: "startsWith s p \<longleftrightarrow> (\<exists>b. s = p @ b)"
  by (induction s p rule: startsWith.induct) auto

lemma includes_str_iff: "includes_str s p \<longleftrightarrow> (\<exists>a b. s = a @ p @ b)"
proof (induction s)
  case Nil
  show ?case by (cases p) auto
next
  case (Cons c cs)
  show ?case
  proof
    assume "includes_str (c # cs) p"
    then consider "startsWith (c # cs) p" | "includes_str cs p" by auto
    then show "\<exists>a b. c # cs = a @ p @ b"
    proof cases
      case 1
      then obtain b where "c # cs = p @ b" by (auto simp: startsWith_iff)
      then have "c # cs = [] @ p @ b" by simp
      then show ?thesis by blast
    next
      case 2
      then obtain a b where "cs = a @ p @ b" using Cons.IH by auto
      then have "c # cs = (c # a) @ p @ b" by simp
      then show ?thesis by blast
    qed
  next
    assume "\<exists>a b. c # cs = a @ p @ b"
    then obtain a b where ab: "c # cs = a @ p @ b" by blast
    show "includes_str (c # cs) p"
    proof (cases a)
      case Nil
      with ab have "startsWith (c # cs) p" by (auto simp: startsWith_iff)
      then show ?thesis by simp
    next
      case (Cons x xs)
      with ab have "cs = xs @ p @ b" by simp
      then have "includes_str cs p" using Cons.IH by blast
      then show ?thesis by simp
    qed
  qed
qed

lemma trim_decomp: "\<exists>a b. s = a @ trim s @ b"
proof -
  let ?d = "dropWhile isWhiteSpace s"
  let ?t = "takeWhile isWhiteSpace (rev ?d)"
  have "rev (?t @ dropWhile isWhiteSpace (rev ?d)) = rev (rev ?d)"
    by (simp only: takeWhile_dropWhile_id)
  then have d: "trim s @ rev ?t = ?d"
    by (simp only: rev_append rev_rev_ident trim_def)
  have "takeWhile isWhiteSpace s @ ?d = s"
    by (rule takeWhile_dropWhile_id)
  with d have "s = takeWhile isWhiteSpace s @ trim s @ rev ?t"
    by simp
  then show ?thesis by blast
qed

lemma echoReply_includes_trim: "includes_str (echoReply u) (trim u)"
proof -
  obtain a b where "u = a @ trim u @ b" using trim_decomp by blast
  then have "echoReply u = (js ''You said: '' @ [0x22] @ a) @ trim u @ (b @ [0x22] @ js ''. How else can I assist?'')"
    unfolding echoReply_def by (metis append.assoc)
  then show ?thesis unfolding includes_str_iff by blast
qed

lemma length_trim_le: "length (trim s) \<le> length s"
proof -
  obtain a b where "s = a @ trim s @ b" using trim_decomp by blast
  then have "length s = length a + length (trim s) + length b" by (metis length_append add.assoc)
  then show ?thesis by simp
qed

lemma reply_nonempty: "getFakeAIReply u \<noteq> []"
  by (simp add: getFakeAIReply_def greetingReply_def weatherReply_def questionReply_def
        echoReply_def js_def)

lemma js_user_neq_ai: "js ''user'' \<noteq> js ''ai''"
  by (simp add: js_def)

section \<open>The reply generator: rule order and totality\<close>

text \<open>
  Claim C3. The rules of the reply generator are tried in order and the first match
  wins. The tests are the code's: a pattern is contained case-insensitively when the
  lower-cased utterance includes it. An utterance containing \<open>hello\<close> or \<open>hi\<close> gets the
  greeting reply; otherwise one containing \<open>weather\<close> gets the weather reply, whether or
  not it ends with a question mark; otherwise one ending with \<open>?\<close> gets the question
  reply; otherwise the reply is the echo template around the utterance, which contains
  the trimmed utterance as a substring.
\<close>

theorem getFakeAIReply_rule_table:
  "(includes_str (toLowerCase u) (js ''hello'') \<or> includes_str (toLowerCase u) (js ''hi'')
      \<longrightarrow> getFakeAIReply u = greetingReply)
   \<and> (\<not> includes_str (toLowerCase u) (js ''hello'')
      \<and> \<not> includes_str (toLowerCase u) (js ''hi'')
      \<and> includes_str (toLowerCase u) (js ''weather'')
      \<longrightarrow> getFakeAIReply u = weatherReply)
   \<and> (\<not> includes_str (toLowerCase u) (js ''hello'')
      \<and> \<not> includes_str (toLowerCase u) (js ''hi'')
      \<and> \<not> includes_str (toLowerCase u) (js ''weather'')
      \<and> endsWith u (js ''?'')
      \<longrightarrow> getFakeAIReply u = questionReply)
   \<and> (\<not> includes_str (toLowerCase u) (js ''hello'')
      \<and> \<not> includes_str (toLowerCase u) (js ''hi'')
      \<and> \<not> includes_str (toLowerCase u) (js ''weather'')
      \<and> \<not> endsWith u (js ''?'')
      \<longrightarrow> getFakeAIReply u = echoReply u \<and> includes_str (getFakeAIReply u) (trim u))"
proof (intro conjI impI)
  assume "includes_str (toLowerCase u) (js ''hello'') \<or> includes_str (toLowerCase u) (js ''hi'')"
  then show "getFakeAIReply u = greetingReply"
    unfolding getFakeAIReply_def by simp
next
  assume "\<not> includes_str (toLowerCase u) (js ''hello'')
      \<and> \<not> includes_str (toLowerCase u) (js ''hi'')
      \<and> includes_str (toLowerCase u) (js ''weather'')"
  then show "getFakeAIReply u = weatherReply"
    unfolding getFakeAIReply_def by simp
next
  assume "\<not> includes_str (toLowerCase u) (js ''hello'')
      \<and> \<not> includes_str (toLowerCase u) (js ''hi'')
      \<and> \<not> includes_str (toLowerCase u) (js ''weather'')
      \<and> endsWith u (js ''?'')"
  then show "getFakeAIReply u = questionReply"
    unfolding getFakeAIReply_def by simp
next
  assume none: "\<not> includes_str (toLowerCase u) (js ''hello'')
      \<and> \<not> includes_str (toLowerCase u) (js ''hi'')
      \<and> \<not> includes_str (toLowerCase u) (js ''weather'')
      \<and> \<not> endsWith u (js ''?'')"
  then show echo: "getFakeAIReply u = echoReply u"
    unfolding getFakeAIReply_def by simp
  show "includes_str (getFakeAIReply u) (trim u)"
    unfolding echo by (rule echoReply_includes_trim)
qed

theorem getFakeAIReply_rule_table_witness:
  "includes_str (toLowerCase (js ''Hi there'')) (js ''hi'')
   \<and> getFakeAIReply (js ''Hi there'') = greetingReply
   \<and> endsWith (js ''what's the weather?'') (js ''?'')
   \<and> getFakeAIReply (js ''what's the weather?'') = weatherReply
   \<and> getFakeAIReply (js ''Is it real?'') = questionReply
   \<and> includes_str (getFakeAIReply (js ''ok thanks'')) (js ''ok thanks'')"
proof -
  have h1: "includes_str (toLowerCase (js ''Hi there'')) (js ''hi'')"
    by (simp add: js_def toLowerCase_def lowerUnit_def)
  have h2: "\<not> includes_str (toLowerCase (js ''what's the weather?'')) (js ''hello'')
      \<and> \<not> includes_str (toLowerCase (js ''what's the weather?'')) (js ''hi'')
      \<and> includes_str (toLowerCase (js ''what's the weather?'')) (js ''weather'')"
    by (simp add: js_def toLowerCase_def lowerUnit_def)
  have q2: "endsWith (js ''what's the weather?'') (js ''?'')"
    by (simp add: js_def endsWith_def)
  have h3: "\<not> includes_str (toLowerCase (js ''Is it real?'')) (js ''hello'')
      \<and> \<not> includes_str (toLowerCase (js ''Is it real?'')) (js ''hi'')
      \<and> \<not> includes_str (toLowerCase (js ''Is it real?'')) (js ''weather'')
      \<and> endsWith (js ''Is it real?'') (js ''?'')"
    by (simp add: js_def toLowerCase_def lowerUnit_def endsWith_def)
  have h4: "\<not> includes_str (toLowerCase (js ''ok thanks'')) (js ''hello'')
      \<and> \<not> includes_str (toLowerCase (js ''ok thanks'')) (js ''hi'')
      \<and> \<not> includes_str (toLowerCase (js ''ok thanks'')) (js ''weather'')
      \<and> \<not> endsWith (js ''ok thanks'') (js ''?'')"
    by (simp add: js_def toLowerCase_def lowerUnit_def endsWith_def)
  have t4: "trim (js ''ok thanks'') = js ''ok thanks''"
    by (simp add: js_def trim_def isWhiteSpace_def)
  from h1 getFakeAIReply_rule_table [of "js ''Hi there''"]
  have r1: "getFakeAIReply (js ''Hi there'') = greetingReply" by blast
  from h2 getFakeAIReply_rule_table [of "js ''what's the weather?''"]
  have r2: "getFakeAIReply (js ''what's the weather?'') = weatherReply" by blast
  from h3 getFakeAIReply_rule_table [of "js ''Is it real?''"]
  have r3: "getFakeAIReply (js ''Is it real?'') = questionReply" by blast
  from h4 getFakeAIReply_rule_table [of "js ''ok thanks''"]
  have "includes_str (getFakeAIReply (js ''ok thanks'')) (trim (js ''ok thanks''))" by blast
  then have r4: "includes_str (getFakeAIReply (js ''ok thanks'')) (js ''ok thanks'')"
    by (simp only: t4)
  from h1 r1 q2 r2 r3 r4 show ?thesis by blast
qed

text \<open>
  Claim C4, as the code has it. The lower-cased \<open>is this real?\<close> includes \<open>hi\<close>, inside
  \<open>this\<close>, so the first rule matches and the reply to \<open>Is this real?\<close> is the greeting
  reply.
\<close>

theorem is_this_real_greeting:
  "includes_str (toLowerCase (js ''Is this real?'')) (js ''hi'')
   \<and> getFakeAIReply (js ''Is this real?'') = greetingReply"
  by (simp add: getFakeAIReply_def js_def toLowerCase_def lowerUnit_def)

text \<open>
  Claim C4, as stated: the reply to \<open>Is this real?\<close> would be the question reply. It is
  not.
\<close>

theorem is_this_real_not_question:
  "getFakeAIReply (js ''Is this real?'') \<noteq> questionReply"
  by (simp add: getFakeAIReply_def js_def toLowerCase_def lowerUnit_def
        greetingReply_def questionReply_def)

text \<open>
  Claim C10. The reply generator returns a non-empty string for every string: each of
  its four branches returns a non-empty literal or the non-empty template around the
  input.
\<close>

theorem getFakeAIReply_nonempty: "getFakeAIReply u \<noteq> []"
  by (simp add: getFakeAIReply_def greetingReply_def weatherReply_def questionReply_def
        echoReply_def js_def)

section \<open>The submission lifecycle\<close>

lemma handleSendMsgIn_rejected:
  "trim (renderInput r) = [] \<or> renderIsLoading r \<Longrightarrow> handleSendMsgIn r random s = (Undefined, s)"
  by (simp add: handleSendMsgIn_def)

lemma handleSendMsgIn_accepted:
  "trim (renderInput r) \<noteq> [] \<Longrightarrow> \<not> renderIsLoading r \<Longrightarrow>
   handleSendMsgIn r random s =
     (Undefined,
      s\<lparr>messages := messages s @ [\<lparr>role = js ''user'', content = trim (renderInput r)\<rparr>],
        input := [],
        isLoading := True,
        timers := timers s
          @ [\<lparr>delay = timeoutDelay random, trimmedInput = trim (renderInput r)\<rparr>]\<rparr>)"
  by (simp add: handleSendMsgIn_def Let_def)


lemma handleSendMsg_accepted:
  "trim (input s) \<noteq> [] \<Longrightarrow> \<not> isLoading s \<Longrightarrow>
   handleSendMsg random s =
     (Undefined,
      s\<lparr>messages := messages s @ [\<lparr>role = js ''user'', content = trim (input s)\<rparr>],
        input := [],
        isLoading := True,
        timers := timers s @ [\<lparr>delay = timeoutDelay random, trimmedInput = trim (input s)\<rparr>]\<rparr>)"
  by (simp add: handleSendMsg_def renderOf_def handleSendMsgIn_accepted)


lemma run_append: "run (es @ es') s = run es' (run es s)"
  by (simp add: run_def)

lemma run_Cons: "run (e # es) s = run es (dispatch e s)"
  by (simp add: run_def)

lemma run_Nil: "run [] s = s"
  by (simp add: run_def)

lemma loadingMatchesLast_initialState: "loadingMatchesLast initialState"
  using js_user_neq_ai by (simp add: loadingMatchesLast_def initialState_def)

lemma handleSendMsgIn_loadingMatchesLast:
  assumes "loadingMatchesLast s"
  shows "loadingMatchesLast (snd (handleSendMsgIn r random s))"
proof (cases "trim (renderInput r) = [] \<or> renderIsLoading r")
  case True
  then show ?thesis using assms by (simp add: handleSendMsgIn_rejected)
next
  case False
  then show ?thesis by (simp add: handleSendMsgIn_accepted loadingMatchesLast_def)
qed

lemma dispatch_loadingMatchesLast:
  assumes "loadingMatchesLast s"
  shows "loadingMatchesLast (dispatch e s)"
proof (cases e)
  case (Change v)
  then show ?thesis using assms by (simp add: loadingMatchesLast_def)
next
  case (Submit random)
  then show ?thesis using handleSendMsgIn_loadingMatchesLast [OF assms] by simp
next
  case (KeyDown key shiftKey random)
  then show ?thesis
    using handleSendMsgIn_loadingMatchesLast [OF assms] assms by (simp add: handleKeyDown_def)
next
  case (Timeout i)
  then show ?thesis
    using assms js_user_neq_ai by (simp add: loadingMatchesLast_def timerCallback_def Let_def)
next
  case Render
  then show ?thesis using assms by (simp add: loadingMatchesLast_def)
qed

lemma run_loadingMatchesLast: "loadingMatchesLast s \<Longrightarrow> loadingMatchesLast (run es s)"
  by (induction es arbitrary: s) (simp_all add: run_Nil run_Cons dispatch_loadingMatchesLast)

text \<open>
  Two submissions served by one render are both accepted: the second call still reads
  the constants of the render made before the first.
\<close>

lemma two_submits_one_render:
  "map role (messages (run [Change (js ''hello''), Render, Submit 0, Submit 0] initialState))
     = [js ''ai'', js ''user'', js ''user'']
   \<and> length (timers (run [Change (js ''hello''), Render, Submit 0, Submit 0] initialState)) = 2
   \<and> isLoading (run [Change (js ''hello''), Render, Submit 0, Submit 0] initialState)"
  by (simp add: run_def handleSendMsgIn_def Let_def renderOf_def initialState_def trim_def
        js_def isWhiteSpace_def)

text \<open>
  Claim C5. In every state reached from the initial state by any sequence of events,
  whichever render serves each of them, the loading flag is on exactly when the last
  message of the history has the role \<open>user\<close>; and while it is on, that message is not
  answered yet: the callback that will append the reply to its text is still scheduled.
\<close>

theorem awaiting_iff_last_user:
  "(isLoading (run es initialState)
      \<longleftrightarrow> role (last (messages (run es initialState))) = js ''user'')
   \<and> (isLoading (run es initialState)
      \<longrightarrow> timers (run es initialState) \<noteq> []
          \<and> trimmedInput (last (timers (run es initialState)))
              = content (last (messages (run es initialState))))"
proof -
  have "loadingMatchesLast (run es initialState)"
    using loadingMatchesLast_initialState by (rule run_loadingMatchesLast)
  then show ?thesis
    using js_user_neq_ai by (auto simp: loadingMatchesLast_def split: if_splits)
qed

theorem awaiting_iff_last_user_witness:
  "isLoading (run [Change (js ''hello''), Render, Submit 0, Submit 0] initialState)
   \<and> role (last (messages (run [Change (js ''hello''), Render, Submit 0, Submit 0] initialState)))
       = js ''user''
   \<and> timers (run [Change (js ''hello''), Render, Submit 0, Submit 0] initialState) \<noteq> []
   \<and> trimmedInput (last (timers
         (run [Change (js ''hello''), Render, Submit 0, Submit 0] initialState)))
       = content (last (messages
           (run [Change (js ''hello''), Render, Submit 0, Submit 0] initialState)))
   \<and> \<not> isLoading (run [Change (js ''hello''), Render, Submit 0, Submit 0, Timeout 0]
                     initialState)
   \<and> role (last (messages
         (run [Change (js ''hello''), Render, Submit 0, Submit 0, Timeout 0] initialState)))
       \<noteq> js ''user''"
proof -
  let ?es = "[Change (js ''hello''), Render, Submit 0, Submit 0]"
  let ?es' = "[Change (js ''hello''), Render, Submit 0, Submit 0, Timeout 0]"
  have l: "isLoading (run ?es initialState)"
    using two_submits_one_render by blast
  have n: "\<not> isLoading (run ?es' initialState)"
    by (simp add: run_def handleSendMsgIn_def timerCallback_def Let_def renderOf_def
          initialState_def trim_def js_def isWhiteSpace_def)
  from awaiting_iff_last_user [of ?es] l
  have a: "role (last (messages (run ?es initialState))) = js ''user''
     \<and> timers (run ?es initialState) \<noteq> []
     \<and> trimmedInput (last (timers (run ?es initialState)))
         = content (last (messages (run ?es initialState)))"
    by blast
  from awaiting_iff_last_user [of ?es'] n
  have b: "role (last (messages (run ?es' initialState))) \<noteq> js ''user''"
    by blast
  from l a n b show ?thesis by blast
qed

lemma handleSendMsgIn_messages:
  "messages (snd (handleSendMsgIn r random s)) = messages s
   \<or> messages (snd (handleSendMsgIn r random s))
       = messages s @ [\<lparr>role = js ''user'', content = trim (renderInput r)\<rparr>]"
  by (cases "trim (renderInput r) = [] \<or> renderIsLoading r")
     (simp_all add: handleSendMsgIn_rejected handleSendMsgIn_accepted)

lemma dispatch_messages:
  "\<exists>ext. messages (dispatch e s) = messages s @ ext
         \<and> (\<forall>m \<in> set ext. role m = js ''user'' \<or> role m = js ''ai'')"
proof (cases e)
  case (Change v)
  then have "messages (dispatch e s) = messages s @ []" by simp
  then show ?thesis by fastforce
next
  case (Submit random)
  then show ?thesis using handleSendMsgIn_messages [of "rendered s" random s] by fastforce
next
  case (KeyDown key shiftKey random)
  then show ?thesis
    using handleSendMsgIn_messages [of "rendered s" random s]
    by (cases "key = js ''Enter'' \<and> \<not> shiftKey") (fastforce simp: handleKeyDown_def)+
next
  case (Timeout i)
  show ?thesis
  proof (cases "i < length (timers s)")
    case True
    then have "messages (dispatch e s)
               = messages s
                 @ [\<lparr>role = js ''ai'', content = getFakeAIReply (trimmedInput (timers s ! i))\<rparr>]"
      using Timeout by (simp add: timerCallback_def Let_def)
    then show ?thesis by fastforce
  next
    case False
    then have "messages (dispatch e s) = messages s @ []" using Timeout by simp
    then show ?thesis by fastforce
  qed
next
  case Render
  then have "messages (dispatch e s) = messages s @ []" by simp
  then show ?thesis by fastforce
qed

lemma run_messages:
  "\<exists>ext. messages (run es s) = messages s @ ext
         \<and> (\<forall>m \<in> set ext. role m = js ''user'' \<or> role m = js ''ai'')"
proof (induction es arbitrary: s)
  case Nil
  have "messages (run [] s) = messages s @ []" by (simp add: run_Nil)
  then show ?case by fastforce
next
  case (Cons e es)
  obtain ext1 where e1: "messages (dispatch e s) = messages s @ ext1"
    and r1: "\<forall>m \<in> set ext1. role m = js ''user'' \<or> role m = js ''ai''"
    using dispatch_messages by blast
  obtain ext2 where e2: "messages (run es (dispatch e s)) = messages (dispatch e s) @ ext2"
    and r2: "\<forall>m \<in> set ext2. role m = js ''user'' \<or> role m = js ''ai''"
    using Cons.IH by blast
  from e1 e2 have "messages (run (e # es) s) = messages s @ (ext1 @ ext2)"
    by (simp add: run_Cons)
  moreover from r1 r2 have "\<forall>m \<in> set (ext1 @ ext2). role m = js ''user'' \<or> role m = js ''ai''"
    by auto
  ultimately show ?case by blast
qed

text \<open>
  Claim C6. Every message of every reachable history has the role \<open>user\<close> or the role
  \<open>ai\<close> (the code's name for the assistant), and later events leave the messages already
  present as they are, at their positions: the history only grows at its end. A
  submission appends nothing or one message of role \<open>user\<close>, a timer nothing or one reply
  of role \<open>ai\<close>, and typing or rendering nothing.
\<close>

theorem roles_enumerated_and_messages_immutable:
  "(\<forall>m \<in> set (messages (run es initialState)). role m = js ''user'' \<or> role m = js ''ai'')
   \<and> take (length (messages (run es initialState))) (messages (run (es @ es') initialState))
       = messages (run es initialState)
   \<and> (messages (dispatch (Submit random) s) = messages s
      \<or> messages (dispatch (Submit random) s)
          = messages s @ [\<lparr>role = js ''user'', content = trim (renderInput (rendered s))\<rparr>])
   \<and> (messages (dispatch (KeyDown key shiftKey random) s) = messages s
      \<or> messages (dispatch (KeyDown key shiftKey random) s)
          = messages s @ [\<lparr>role = js ''user'', content = trim (renderInput (rendered s))\<rparr>])
   \<and> (messages (dispatch (Timeout i) s) = messages s
      \<or> (\<exists>u. messages (dispatch (Timeout i) s)
               = messages s @ [\<lparr>role = js ''ai'', content = getFakeAIReply u\<rparr>]))
   \<and> messages (dispatch (Change v) s) = messages s
   \<and> messages (dispatch Render s) = messages s"
proof (intro conjI)
  obtain ext where "messages (run es initialState) = messages initialState @ ext"
    and "\<forall>m \<in> set ext. role m = js ''user'' \<or> role m = js ''ai''"
    using run_messages by blast
  then show "\<forall>m \<in> set (messages (run es initialState)). role m = js ''user'' \<or> role m = js ''ai''"
    by (auto simp: initialState_def)
next
  obtain ext where "messages (run es' (run es initialState)) = messages (run es initialState) @ ext"
    using run_messages by blast
  then show "take (length (messages (run es initialState))) (messages (run (es @ es') initialState))
       = messages (run es initialState)"
    by (simp add: run_append)
next
  show "messages (dispatch (Submit random) s) = messages s
      \<or> messages (dispatch (Submit random) s)
          = messages s @ [\<lparr>role = js ''user'', content = trim (renderInput (rendered s))\<rparr>]"
    using handleSendMsgIn_messages [of "rendered s" random s] by simp
next
  show "messages (dispatch (KeyDown key shiftKey random) s) = messages s
      \<or> messages (dispatch (KeyDown key shiftKey random) s)
          = messages s @ [\<lparr>role = js ''user'', content = trim (renderInput (rendered s))\<rparr>]"
    using handleSendMsgIn_messages [of "rendered s" random s]
    by (cases "key = js ''Enter'' \<and> \<not> shiftKey") (simp_all add: handleKeyDown_def)
next
  show "messages (dispatch (Timeout i) s) = messages s
      \<or> (\<exists>u. messages (dispatch (Timeout i) s)
               = messages s @ [\<lparr>role = js ''ai'', content = getFakeAIReply u\<rparr>])"
    by (cases "i < length (timers s)") (auto simp: timerCallback_def Let_def)
next
  show "messages (dispatch (Change v) s) = messages s" by simp
next
  show "messages (dispatch Render s) = messages s" by simp
qed

theorem roles_enumerated_and_messages_immutable_witness:
  "\<lparr>role = js ''user'', content = js ''hello''\<rparr>
      \<in> set (messages (run [Change (js '' hello ''), Render, Submit 0] initialState))
   \<and> \<lparr>role = js ''ai'', content = seedGreeting\<rparr>
      \<in> set (messages (run [Change (js '' hello ''), Render, Submit 0] initialState))
   \<and> length (messages (run [Change (js '' hello ''), Render, Submit 0] initialState)) = 2
   \<and> length (messages (run ([Change (js '' hello ''), Render, Submit 0] @ [Timeout 0]) initialState)) = 3
   \<and> take 2 (messages (run ([Change (js '' hello ''), Render, Submit 0] @ [Timeout 0]) initialState))
       = messages (run [Change (js '' hello ''), Render, Submit 0] initialState)"
proof -
  have m2: "messages (run [Change (js '' hello ''), Render, Submit 0] initialState)
            = [\<lparr>role = js ''ai'', content = seedGreeting\<rparr>,
               \<lparr>role = js ''user'', content = js ''hello''\<rparr>]"
    by (simp add: run_def handleSendMsgIn_def renderOf_def Let_def initialState_def trim_def js_def
          isWhiteSpace_def)
  have m3: "length (messages (run ([Change (js '' hello ''), Render, Submit 0] @ [Timeout 0]) initialState)) = 3"
    by (simp add: run_def handleSendMsgIn_def renderOf_def timerCallback_def Let_def initialState_def
          trim_def js_def isWhiteSpace_def)
  have l2: "length (messages (run [Change (js '' hello ''), Render, Submit 0] initialState)) = 2"
    by (simp add: m2)
  have c1: "\<lparr>role = js ''user'', content = js ''hello''\<rparr>
             \<in> set (messages (run [Change (js '' hello ''), Render, Submit 0] initialState))"
    by (simp add: m2)
  have c2: "\<lparr>role = js ''ai'', content = seedGreeting\<rparr>
             \<in> set (messages (run [Change (js '' hello ''), Render, Submit 0] initialState))"
    by (simp add: m2)
  from roles_enumerated_and_messages_immutable
         [of "[Change (js '' hello ''), Render, Submit 0]" "[Timeout 0]"]
  have "take (length (messages (run [Change (js '' hello ''), Render, Submit 0] initialState)))
          (messages (run ([Change (js '' hello ''), Render, Submit 0] @ [Timeout 0]) initialState))
        = messages (run [Change (js '' hello ''), Render, Submit 0] initialState)"
    by blast
  then have tk: "take 2
          (messages (run ([Change (js '' hello ''), Render, Submit 0] @ [Timeout 0]) initialState))
        = messages (run [Change (js '' hello ''), Render, Submit 0] initialState)"
    by (simp only: l2)
  from c1 c2 l2 m3 tk show ?thesis by blast
qed

text \<open>
  Claim C8. The initial state holds exactly the seeded greeting, with the role of the
  assistant, and is not loading; every reachable history is non-empty and still starts
  with that greeting.
\<close>

theorem initial_state_and_history_never_empty:
  "messages initialState = [\<lparr>role = js ''ai'', content = seedGreeting\<rparr>]
   \<and> \<not> isLoading initialState
   \<and> messages (run es initialState) \<noteq> []
   \<and> hd (messages (run es initialState)) = \<lparr>role = js ''ai'', content = seedGreeting\<rparr>"
proof -
  obtain ext where "messages (run es initialState) = messages initialState @ ext"
    using run_messages by blast
  then show ?thesis by (simp add: initialState_def)
qed

text \<open>
  Claim C1. When the trimmed input is non-empty and the component is not loading,
  \<open>handleSendMsg\<close> turns the loading flag on and appends the user's trimmed text, and the
  callback it scheduled then appends the reply that \<open>getFakeAIReply\<close> gives for that text
  and turns the flag off: two messages more, user then assistant.
\<close>

theorem submit_then_resolve:
  assumes "trim (input s) \<noteq> []" and "\<not> isLoading s"
  shows "isLoading (snd (handleSendMsg random s))
   \<and> messages (snd (handleSendMsg random s))
       = messages s @ [\<lparr>role = js ''user'', content = trim (input s)\<rparr>]
   \<and> messages (dispatch (Timeout (length (timers s))) (snd (handleSendMsg random s)))
       = messages s @ [\<lparr>role = js ''user'', content = trim (input s)\<rparr>,
                       \<lparr>role = js ''ai'', content = getFakeAIReply (trim (input s))\<rparr>]
   \<and> \<not> isLoading (dispatch (Timeout (length (timers s))) (snd (handleSendMsg random s)))
   \<and> length (messages (dispatch (Timeout (length (timers s))) (snd (handleSendMsg random s))))
       = length (messages s) + 2"
  using assms by (simp add: handleSendMsg_accepted timerCallback_def Let_def)

theorem submit_then_resolve_witness:
  "trim (input (initialState\<lparr>input := js ''hello''\<rparr>)) \<noteq> []
   \<and> \<not> isLoading (initialState\<lparr>input := js ''hello''\<rparr>)
   \<and> isLoading (snd (handleSendMsg 0 (initialState\<lparr>input := js ''hello''\<rparr>)))
   \<and> length (messages (snd (handleSendMsg 0 (initialState\<lparr>input := js ''hello''\<rparr>)))) = 2
   \<and> \<not> isLoading (dispatch (Timeout 0) (snd (handleSendMsg 0 (initialState\<lparr>input := js ''hello''\<rparr>))))
   \<and> length (messages (dispatch (Timeout 0)
                (snd (handleSendMsg 0 (initialState\<lparr>input := js ''hello''\<rparr>))))) = 3
   \<and> messages (dispatch (Timeout 0) (snd (handleSendMsg 0 (initialState\<lparr>input := js ''hello''\<rparr>)))) ! 2
       = \<lparr>role = js ''ai'', content = greetingReply\<rparr>"
proof -
  let ?s = "initialState\<lparr>input := js ''hello''\<rparr>"
  have t: "trim (js ''hello'') = js ''hello''"
    by (simp add: trim_def js_def isWhiteSpace_def)
  have h1: "trim (input ?s) \<noteq> []" by (simp add: t) (simp add: js_def)
  have h2: "\<not> isLoading ?s" by (simp add: initialState_def)
  have tm: "length (timers ?s) = 0" by (simp add: initialState_def)
  have ms: "messages ?s = [\<lparr>role = js ''ai'', content = seedGreeting\<rparr>]"
    by (simp add: initialState_def)
  have g: "getFakeAIReply (js ''hello'') = greetingReply"
    by (simp add: getFakeAIReply_def js_def toLowerCase_def lowerUnit_def)
  have i: "trim (input ?s) = js ''hello''" by (simp add: t)
  from submit_then_resolve [OF h1 h2, of 0] h1 h2 show ?thesis
    unfolding tm ms i g by simp
qed




section \<open>The timer delay in binary64\<close>

text \<open>
  Rounding to a grid of step \<open>2\<^sup>s\<close> cannot cross a multiple of that step. The bounds 1000,
  1200 and 2200 are multiples of every step that occurs for operands of their size, so
  the rounded product stays at most 1200 and the rounded sum between 1000 and 2200.
\<close>

lemma bitLength_le: "k < 2 ^ n \<Longrightarrow> bitLength k \<le> n"
proof (induction n arbitrary: k)
  case 0
  then have "k = 0" by simp
  then show ?case by (simp add: bitLength.simps)
next
  case (Suc n)
  show ?case
  proof (cases "k = 0")
    case True
    then show ?thesis by (simp add: bitLength.simps)
  next
    case False
    from Suc.prems have "k div 2 < 2 ^ n" by simp
    then have "bitLength (k div 2) \<le> n" by (rule Suc.IH)
    then show ?thesis using False by (subst bitLength.simps) simp
  qed
qed

lemma bitLength_gt: "2 ^ n \<le> k \<Longrightarrow> n < bitLength k"
proof (induction n arbitrary: k)
  case 0
  then have "k \<noteq> 0" by auto
  then show ?case by (subst bitLength.simps) simp
next
  case (Suc n)
  have "0 < (2::nat) ^ Suc n" by simp
  with Suc.prems have nz: "k \<noteq> 0" by linarith
  from Suc.prems have "2 ^ n \<le> k div 2" by simp
  then have "n < bitLength (k div 2)" by (rule Suc.IH)
  then show ?case using nz by (subst bitLength.simps) simp
qed

lemma bitLength_eq: "2 ^ n \<le> k \<Longrightarrow> k < 2 ^ Suc n \<Longrightarrow> bitLength k = Suc n"
  using bitLength_le [of k "Suc n"] bitLength_gt [of n k] by simp

lemma roundNearestEven_lower:
  assumes "a \<le> k" and "2 ^ (bitLength k - 53) dvd a"
  shows "a \<le> roundNearestEven k"
proof (cases "k < 2 ^ 53")
  case True
  then show ?thesis using assms by (simp add: roundNearestEven_def)
next
  case False
  define s where "s = bitLength k - 53"
  obtain m where m: "a = 2 ^ s * m" using assms(2) unfolding s_def by (auto elim: dvdE)
  have "m \<le> k div 2 ^ s"
  proof -
    have "m * 2 ^ s \<le> k" using assms(1) m by (simp add: mult.commute)
    then have "m * 2 ^ s div 2 ^ s \<le> k div 2 ^ s" by (rule div_le_mono)
    then show ?thesis by simp
  qed
  then have q: "a \<le> (k div 2 ^ s) * 2 ^ s" using m by (simp add: mult.commute)
  have "(k div 2 ^ s) * 2 ^ s \<le> (k div 2 ^ s + 1) * 2 ^ s" by simp
  with q show ?thesis using False
    by (auto simp: roundNearestEven_def Let_def s_def [symmetric])
qed

lemma roundNearestEven_upper:
  assumes "k \<le> b" and "2 ^ (bitLength k - 53) dvd b"
  shows "roundNearestEven k \<le> b"
proof (cases "k < 2 ^ 53")
  case True
  then show ?thesis using assms by (simp add: roundNearestEven_def)
next
  case False
  define s where "s = bitLength k - 53"
  obtain m where m: "b = m * 2 ^ s" using assms(2) unfolding s_def
    by (auto elim: dvdE simp: mult.commute)
  have down: "(k div 2 ^ s) * 2 ^ s \<le> b"
  proof -
    have "(k div 2 ^ s) * 2 ^ s \<le> k" by simp
    then show ?thesis using assms(1) by (rule le_trans)
  qed
  have up: "(k div 2 ^ s + 1) * 2 ^ s \<le> b" if r: "\<not> k mod 2 ^ s < 2 ^ (s - 1)"
  proof -
    have "(0::nat) < 2 ^ (s - 1)" by simp
    with r have "k mod 2 ^ s \<noteq> 0" by linarith
    then have "\<not> 2 ^ s dvd k" by (simp add: dvd_eq_mod_eq_0)
    then have "k \<noteq> m * 2 ^ s" by auto
    with assms(1) m have "k < m * 2 ^ s" by simp
    then have "k div 2 ^ s < m" by (simp add: div_less_iff_less_mult)
    then have "k div 2 ^ s + 1 \<le> m" by simp
    then have "(k div 2 ^ s + 1) * 2 ^ s \<le> m * 2 ^ s" by (rule mult_le_mono1)
    with m show ?thesis by simp
  qed
  show ?thesis using False down up
    by (auto simp: roundNearestEven_def Let_def s_def [symmetric])
qed

lemma mulInt_1200_upper:
  assumes "x < 2 ^ n"
  shows "mulInt x 1200 \<le> 1200 * 2 ^ n"
  unfolding mulInt_def
proof (rule roundNearestEven_upper)
  show "x * 1200 \<le> 1200 * 2 ^ n" using assms by simp
  have "x * 1200 < 2 ^ n * 2 ^ 11"
  proof -
    have "x * 1200 < 2 ^ n * 1200" using assms by simp
    also have "\<dots> \<le> 2 ^ n * 2 ^ 11" by simp
    finally show ?thesis .
  qed
  then have "x * 1200 < 2 ^ (n + 11)" by (simp only: power_add)
  then have "bitLength (x * 1200) \<le> n + 11" by (rule bitLength_le)
  then have "bitLength (x * 1200) - 53 \<le> n" by simp
  then have "(2::nat) ^ (bitLength (x * 1200) - 53) dvd 2 ^ n" by (rule le_imp_power_dvd)
  then show "(2::nat) ^ (bitLength (x * 1200) - 53) dvd 1200 * 2 ^ n" by (rule dvd_mult)
qed

lemma add_1000_bounds:
  assumes "p \<le> 1200 * 2 ^ n"
  shows "1000 * 2 ^ n \<le> addDouble (1000 * 2 ^ n) p"
    and "addDouble (1000 * 2 ^ n) p \<le> 2200 * 2 ^ n"
proof -
  let ?k = "1000 * 2 ^ n + p"
  have "?k \<le> 2200 * 2 ^ n" using assms by simp
  also have "\<dots> < 2 ^ 12 * 2 ^ n" by simp
  finally have "?k < 2 ^ (12 + n)" by (simp only: power_add)
  then have "bitLength ?k \<le> 12 + n" by (rule bitLength_le)
  then have "bitLength ?k - 53 \<le> n" by simp
  then have d: "(2::nat) ^ (bitLength ?k - 53) dvd 2 ^ n" by (rule le_imp_power_dvd)
  show "1000 * 2 ^ n \<le> addDouble (1000 * 2 ^ n) p"
    unfolding addDouble_def
  proof (rule roundNearestEven_lower)
    show "1000 * 2 ^ n \<le> ?k" by simp
    show "(2::nat) ^ (bitLength ?k - 53) dvd 1000 * 2 ^ n" using d by (rule dvd_mult)
  qed
  show "addDouble (1000 * 2 ^ n) p \<le> 2200 * 2 ^ n"
    unfolding addDouble_def
  proof (rule roundNearestEven_upper)
    show "?k \<le> 2200 * 2 ^ n" using assms by simp
    show "(2::nat) ^ (bitLength ?k - 53) dvd 2200 * 2 ^ n" using d by (rule dvd_mult)
  qed
qed

lemma timeoutDelay_range:
  assumes "isRandomDraw r"
  shows "fromInt 1000 \<le> timeoutDelay r \<and> timeoutDelay r \<le> fromInt 2200"
proof -
  from assms have "r < 1 * 2 ^ 1074" unfolding isRandomDraw_def fromInt_def by (rule conjunct2)
  then have "r < 2 ^ 1074" by (simp only: mult_1)
  then have "mulInt r 1200 \<le> 1200 * 2 ^ 1074" by (rule mulInt_1200_upper)
  then have "1000 * 2 ^ 1074 \<le> addDouble (1000 * 2 ^ 1074) (mulInt r 1200)"
    and "addDouble (1000 * 2 ^ 1074) (mulInt r 1200) \<le> 2200 * 2 ^ 1074"
    by (rule add_1000_bounds)+
  then show ?thesis unfolding timeoutDelay_def fromInt_def by (rule conjI)
qed

text \<open>
  The rounding written out for an operand whose quotient and remainder by the step are
  known; it evaluates the expression at the draw \<open>1 - 2\<^sup>-\<^sup>5\<^sup>2\<close>.
\<close>

lemma roundNearestEven_split:
  assumes lo: "2 ^ (52 + s) \<le> k" and hi: "k < 2 ^ (53 + s)" and s: "0 < s"
    and k: "k = q * 2 ^ s + r" and r: "r < 2 ^ s"
  shows "roundNearestEven k =
           (if r < 2 ^ (s - 1) \<or> (r = 2 ^ (s - 1) \<and> even q) then q else q + 1) * 2 ^ s"
proof -
  from lo hi have "bitLength k = Suc (52 + s)" by (intro bitLength_eq) simp_all
  then have bl: "bitLength k - 53 = s" by simp
  have "(2::nat) ^ 53 \<le> 2 ^ (52 + s)" using s by (intro power_increasing) simp_all
  with lo have big: "\<not> k < 2 ^ 53" by simp
  from k r have q: "k div 2 ^ s = q" by simp
  from k r have m: "k mod 2 ^ s = r" by simp
  show ?thesis using big by (simp add: roundNearestEven_def Let_def bl q m)
qed

lemma product_near_one:
  "mulInt (2 ^ 1074 - 2 ^ 1022) 1200 = (1200 * 2 ^ 42 - 1) * 2 ^ 1032"
proof -
  have "roundNearestEven ((2 ^ 1074 - 2 ^ 1022) * 1200) =
          (if 1696 * 2 ^ 1021 < (2::nat) ^ (1032 - 1)
              \<or> (1696 * 2 ^ 1021 = (2::nat) ^ (1032 - 1) \<and> even (1200 * 2 ^ 42 - 2 :: nat))
           then 1200 * 2 ^ 42 - 2 else 1200 * 2 ^ 42 - 2 + 1) * 2 ^ 1032"
    by (rule roundNearestEven_split) simp_all
  also have "\<dots> = (1200 * 2 ^ 42 - 1) * 2 ^ 1032" by simp
  finally show ?thesis unfolding mulInt_def .
qed

lemma sum_near_2200:
  "addDouble (1000 * 2 ^ 1074) ((1200 * 2 ^ 42 - 1) * 2 ^ 1032) = 2200 * 2 ^ 1074"
proof -
  have "roundNearestEven (1000 * 2 ^ 1074 + (1200 * 2 ^ 42 - 1) * 2 ^ 1032) =
          (if 2 ^ 1032 < (2::nat) ^ (1033 - 1)
              \<or> (2 ^ 1032 = (2::nat) ^ (1033 - 1) \<and> even (2200 * 2 ^ 41 - 1 :: nat))
           then 2200 * 2 ^ 41 - 1 else 2200 * 2 ^ 41 - 1 + 1) * 2 ^ 1033"
    by (rule roundNearestEven_split) simp_all
  also have "\<dots> = 2200 * 2 ^ 1074" by simp
  finally show ?thesis unfolding addDouble_def .
qed

lemma near_one_isRandomDraw: "isRandomDraw (2 ^ 1074 - 2 ^ 1022)"
proof -
  have bl: "bitLength (2 ^ 1074 - 2 ^ 1022) = Suc 1073"
    by (rule bitLength_eq) simp_all
  have "(2::nat) ^ 1074 - 2 ^ 1022 = 2 ^ 1021 * (2 ^ 53 - 2)" by simp
  then have "(2::nat) ^ 1021 dvd 2 ^ 1074 - 2 ^ 1022" by (metis dvd_triv_left)
  then have d: "(2::nat) ^ (Suc 1073 - 53) dvd 2 ^ 1074 - 2 ^ 1022" by simp
  have "(2::nat) ^ 1074 - 2 ^ 1022 < 2 ^ 2098" by simp
  with d have "isDouble (2 ^ 1074 - 2 ^ 1022)" unfolding isDouble_def bl by blast
  moreover have "(2::nat) ^ 1074 - 2 ^ 1022 < fromInt 1" by (simp add: fromInt_def)
  ultimately show ?thesis unfolding isRandomDraw_def by (rule conjI)
qed

lemma timeoutDelay_near_one: "timeoutDelay (2 ^ 1074 - 2 ^ 1022) = fromInt 2200"
  unfolding timeoutDelay_def fromInt_def product_near_one by (rule sum_near_2200)

lemma half_isRandomDraw: "isRandomDraw (2 ^ 1073)"
proof -
  have "bitLength (2 ^ 1073) = Suc 1073" by (rule bitLength_eq) simp_all
  then have "bitLength (2 ^ 1073) - 53 \<le> 1073" by simp
  then have "(2::nat) ^ (bitLength (2 ^ 1073) - 53) dvd 2 ^ 1073" by (rule le_imp_power_dvd)
  moreover have "(2::nat) ^ 1073 < 2 ^ 2098" by simp
  ultimately have "isDouble (2 ^ 1073)" unfolding isDouble_def by blast
  moreover have "(2::nat) ^ 1073 < fromInt 1" by (simp add: fromInt_def)
  ultimately show ?thesis unfolding isRandomDraw_def by (rule conjI)
qed

section \<open>Content lengths and the scheduled delay\<close>

lemma length_echoReply: "length (echoReply u) = length u + 36"
  by (simp add: echoReply_def js_def)

lemma length_greetingReply: "length greetingReply = 32"
  by (simp add: greetingReply_def js_def)

lemma length_weatherReply: "length weatherReply = 55"
  by (simp add: weatherReply_def js_def)

lemma length_questionReply: "length questionReply = 76"
  by (simp add: questionReply_def js_def)

lemma length_getFakeAIReply: "length (getFakeAIReply u) \<le> max 76 (length u + 36)"
  unfolding getFakeAIReply_def
  by (auto simp: length_echoReply length_greetingReply length_weatherReply
        length_questionReply max_def)

lemma handleSendMsgIn_nonEmpty:
  "nonEmptyContents s \<Longrightarrow> nonEmptyContents (snd (handleSendMsgIn r random s))"
  by (cases "trim (renderInput r) = [] \<or> renderIsLoading r")
     (auto simp: handleSendMsgIn_rejected handleSendMsgIn_accepted nonEmptyContents_def)

lemma dispatch_nonEmpty: "nonEmptyContents s \<Longrightarrow> nonEmptyContents (dispatch e s)"
proof (cases e)
  case (Change v)
  then show "nonEmptyContents s \<Longrightarrow> ?thesis" by (simp add: nonEmptyContents_def)
next
  case (Submit random)
  then show "nonEmptyContents s \<Longrightarrow> ?thesis" by (simp add: handleSendMsgIn_nonEmpty)
next
  case (KeyDown key shiftKey random)
  then show "nonEmptyContents s \<Longrightarrow> ?thesis"
    by (simp add: handleKeyDown_def handleSendMsgIn_nonEmpty)
next
  case (Timeout i)
  then show "nonEmptyContents s \<Longrightarrow> ?thesis"
    by (simp add: nonEmptyContents_def timerCallback_def Let_def reply_nonempty)
next
  case Render
  then show "nonEmptyContents s \<Longrightarrow> ?thesis" by (simp add: nonEmptyContents_def)
qed

lemma run_nonEmpty: "nonEmptyContents s \<Longrightarrow> nonEmptyContents (run es s)"
  by (induction es arbitrary: s) (simp_all add: run_Nil run_Cons dispatch_nonEmpty)

lemma handleSendMsgIn_withinLimits:
  assumes "withinLimits s" and "length (renderInput r) \<le> maxLength"
  shows "withinLimits (snd (handleSendMsgIn r random s))"
proof (cases "trim (renderInput r) = [] \<or> renderIsLoading r")
  case True
  then show ?thesis using assms by (simp add: handleSendMsgIn_rejected)
next
  case False
  have "length (trim (renderInput r)) \<le> length (renderInput r)" by (rule length_trim_le)
  also have "\<dots> \<le> maxLength" by (rule assms(2))
  finally have "length (trim (renderInput r)) \<le> maxLength" .
  then show ?thesis using False assms(1)
    by (auto simp: handleSendMsgIn_accepted withinLimits_def)
qed

lemma timeout_withinLimits:
  assumes "withinLimits s" and i: "i < length (timers s)"
  shows "withinLimits (dispatch (Timeout i) s)"
proof -
  let ?t = "timers s ! i"
  from i have "?t \<in> set (timers s)" by (rule nth_mem)
  with assms(1) have "length (trimmedInput ?t) \<le> maxLength" by (simp add: withinLimits_def)
  then have "max 76 (length (trimmedInput ?t) + 36) \<le> maxLength + 36"
    by (simp add: maxLength_def)
  with length_getFakeAIReply [of "trimmedInput ?t"]
  have reply: "length (getFakeAIReply (trimmedInput ?t)) \<le> maxLength + 36" by (rule le_trans)
  have rest: "set (take i (timers s) @ drop (Suc i) (timers s)) \<subseteq> set (timers s)"
    using set_take_subset [of i "timers s"] set_drop_subset [of "Suc i" "timers s"] by auto
  show ?thesis using assms(1) i reply rest js_user_neq_ai
    by (auto simp: withinLimits_def timerCallback_def Let_def)
qed

lemma dispatch_withinLimits:
  assumes "withinLimits s" and "withinMaxLength e"
  shows "withinLimits (dispatch e s)"
proof -
  from assms(1) have r: "length (renderInput (rendered s)) \<le> maxLength"
    by (simp add: withinLimits_def)
  show ?thesis
  proof (cases e)
    case (Change v)
    then show ?thesis using assms by (simp add: withinLimits_def)
  next
    case (Submit random)
    then show ?thesis using handleSendMsgIn_withinLimits [OF assms(1) r] by simp
  next
    case (KeyDown key shiftKey random)
    then show ?thesis
      using handleSendMsgIn_withinLimits [OF assms(1) r] assms(1) by (simp add: handleKeyDown_def)
  next
    case (Timeout i)
    then show ?thesis
      using assms timeout_withinLimits [of s i] by (cases "i < length (timers s)") simp_all
  next
    case Render
    then show ?thesis using assms(1) by (simp add: withinLimits_def renderOf_def)
  qed
qed

lemma run_withinLimits:
  "withinLimits s \<Longrightarrow> \<forall>e \<in> set es. withinMaxLength e \<Longrightarrow> withinLimits (run es s)"
  by (induction es arbitrary: s) (simp_all add: run_Nil run_Cons dispatch_withinLimits)

lemma initialState_nonEmpty: "nonEmptyContents initialState"
  by (simp add: nonEmptyContents_def initialState_def seedGreeting_def js_def)

lemma initialState_withinLimits: "withinLimits initialState"
  by (simp add: withinLimits_def initialState_def seedGreeting_def js_def maxLength_def)

text \<open>
  Claim C7, as the code has it. Every message of a reachable history has at least one
  code unit. When every value the text area delivers is within its \<open>maxLength\<close> of 2048,
  a user message has at most 2048 code units and any message at most 2048 + 36, the echo
  template around the input. \<open>handleSendMsg\<close> itself checks no length: an accepted
  submission appends the trimmed input whole.
\<close>

theorem content_length_bounds:
  "(m \<in> set (messages (run es initialState)) \<longrightarrow> 1 \<le> length (content m))
   \<and> ((\<forall>e \<in> set es. withinMaxLength e) \<and> m \<in> set (messages (run es initialState))
        \<longrightarrow> (role m = js ''user'' \<longrightarrow> length (content m) \<le> maxLength)
            \<and> length (content m) \<le> maxLength + 36)
   \<and> (trim (input s) \<noteq> [] \<and> \<not> isLoading s
        \<longrightarrow> content (last (messages (snd (handleSendMsg random s)))) = trim (input s))"
proof (intro conjI impI)
  assume "m \<in> set (messages (run es initialState))"
  moreover have "nonEmptyContents (run es initialState)"
    using initialState_nonEmpty by (rule run_nonEmpty)
  ultimately have "content m \<noteq> []" by (simp add: nonEmptyContents_def)
  then show "1 \<le> length (content m)" by (simp add: Suc_le_eq)
next
  assume a: "(\<forall>e \<in> set es. withinMaxLength e) \<and> m \<in> set (messages (run es initialState))"
  then have w: "withinLimits (run es initialState)"
    using initialState_withinLimits by (intro run_withinLimits) simp_all
  from w a show "length (content m) \<le> maxLength + 36" by (simp add: withinLimits_def)
  assume "role m = js ''user''"
  with w a show "length (content m) \<le> maxLength" by (simp add: withinLimits_def)
next
  assume "trim (input s) \<noteq> [] \<and> \<not> isLoading s"
  then show "content (last (messages (snd (handleSendMsg random s)))) = trim (input s)"
    by (simp add: handleSendMsg_accepted)
qed

lemma scheduled_delay:
  "trim (input s) \<noteq> [] \<Longrightarrow> \<not> isLoading s \<Longrightarrow>
   delay (last (timers (snd (handleSendMsg random s)))) = timeoutDelay random"
  by (simp add: handleSendMsg_accepted)

lemma hello_accepted:
  "trim (input (initialState\<lparr>input := js ''hello''\<rparr>)) \<noteq> []
   \<and> \<not> isLoading (initialState\<lparr>input := js ''hello''\<rparr>)"
  by (simp add: initialState_def trim_def js_def isWhiteSpace_def)

text \<open>
  Claim C9, as the code has it. For a draw of \<open>Math.random()\<close>, a binary64 value at least
  0 and below 1, the delay an accepted submission schedules is \<open>1000 + random * 1200\<close>
  computed in binary64, and it is at least 1000 and at most 2200.
\<close>

theorem scheduled_delay_bounds:
  assumes "isRandomDraw r" and "trim (input s) \<noteq> []" and "\<not> isLoading s"
  shows "delay (last (timers (snd (handleSendMsg r s)))) = timeoutDelay r
         \<and> fromInt 1000 \<le> timeoutDelay r \<and> timeoutDelay r \<le> fromInt 2200"
  using scheduled_delay [OF assms(2,3)] timeoutDelay_range [OF assms(1)] by (rule conjI)

theorem scheduled_delay_bounds_witness:
  "isRandomDraw (2 ^ 1073)
   \<and> trim (input (initialState\<lparr>input := js ''hello''\<rparr>)) \<noteq> []
   \<and> \<not> isLoading (initialState\<lparr>input := js ''hello''\<rparr>)
   \<and> fromInt 1000 \<le> delay (last (timers (snd (handleSendMsg (2 ^ 1073)
                                      (initialState\<lparr>input := js ''hello''\<rparr>)))))
   \<and> delay (last (timers (snd (handleSendMsg (2 ^ 1073)
                 (initialState\<lparr>input := js ''hello''\<rparr>))))) \<le> fromInt 2200"
proof -
  note a = hello_accepted [THEN conjunct1] hello_accepted [THEN conjunct2]
  from scheduled_delay_bounds [OF half_isRandomDraw a]
  have "fromInt 1000 \<le> delay (last (timers (snd (handleSendMsg (2 ^ 1073)
                                      (initialState\<lparr>input := js ''hello''\<rparr>)))))
     \<and> delay (last (timers (snd (handleSendMsg (2 ^ 1073)
                 (initialState\<lparr>input := js ''hello''\<rparr>))))) \<le> fromInt 2200"
    by metis
  with half_isRandomDraw a show ?thesis by blast
qed

text \<open>
  Claim C9, as stated: the delay would never be at or above 2200. For the draw
  \<open>1 - 2\<^sup>-\<^sup>5\<^sup>2\<close> the product rounds to \<open>1200 - 2\<^sup>-\<^sup>4\<^sup>2\<close>, the sum \<open>2200 - 2\<^sup>-\<^sup>4\<^sup>2\<close> lies
  halfway between two binary64 values and rounds to the even one, 2200.
\<close>

theorem scheduled_delay_reaches_2200:
  "isRandomDraw (2 ^ 1074 - 2 ^ 1022)
   \<and> \<not> timeoutDelay (2 ^ 1074 - 2 ^ 1022) < fromInt 2200
   \<and> delay (last (timers (snd (handleSendMsg (2 ^ 1074 - 2 ^ 1022)
                 (initialState\<lparr>input := js ''hello''\<rparr>))))) = fromInt 2200"
proof -
  note a = hello_accepted [THEN conjunct1] hello_accepted [THEN conjunct2]
  have "\<not> timeoutDelay (2 ^ 1074 - 2 ^ 1022) < fromInt 2200"
    unfolding timeoutDelay_near_one by (rule less_irrefl)
  moreover have "delay (last (timers (snd (handleSendMsg (2 ^ 1074 - 2 ^ 1022)
                 (initialState\<lparr>input := js ''hello''\<rparr>))))) = fromInt 2200"
    unfolding scheduled_delay [OF a] by (rule timeoutDelay_near_one)
  ultimately show ?thesis using near_one_isRandomDraw by blast
qed

lemma trim_replicate: "\<not> isWhiteSpace c \<Longrightarrow> trim (replicate n c) = replicate n c"
  by (simp add: trim_def dropWhile_replicate)

lemma toLowerCase_replicate: "lowerUnit c = [c] \<Longrightarrow> toLowerCase (replicate n c) = replicate n c"
  by (induction n) (simp_all add: toLowerCase_def)

lemma includes_str_replicate:
  assumes "x \<in> set p" and "x \<noteq> c"
  shows "\<not> includes_str (replicate n c) p"
proof
  assume "includes_str (replicate n c) p"
  then obtain a b where "replicate n c = a @ p @ b" unfolding includes_str_iff by blast
  then have "set p \<subseteq> set (replicate n c)" by (metis set_append Un_upper1 Un_upper2 subset_trans)
  with assms(1) have "x \<in> set (replicate n c)" by blast
  with assms(2) show False by simp
qed

lemma getFakeAIReply_xs: "getFakeAIReply (replicate n 0x78) = echoReply (replicate n 0x78)"
proof -
  have l: "toLowerCase (replicate n 0x78) = replicate n 0x78"
    by (rule toLowerCase_replicate) (simp add: lowerUnit_def)
  have h1: "\<not> includes_str (replicate n 0x78) (js ''hello'')"
    using includes_str_replicate [where x = "0x68" and c = "0x78" and n = n and p = "js ''hello''"]
    by (simp add: js_def)
  have h2: "\<not> includes_str (replicate n 0x78) (js ''hi'')"
    using includes_str_replicate [where x = "0x68" and c = "0x78" and n = n and p = "js ''hi''"]
    by (simp add: js_def)
  have h3: "\<not> includes_str (replicate n 0x78) (js ''weather'')"
    using includes_str_replicate [where x = "0x77" and c = "0x78" and n = n and p = "js ''weather''"]
    by (simp add: js_def)
  have h4: "\<not> endsWith (replicate n 0x78) (js ''?'')"
  proof
    assume e: "endsWith (replicate n 0x78) (js ''?'')"
    let ?d = "drop (length (replicate n (0x78 :: 16 word)) - length (js ''?''))
                (replicate n (0x78 :: 16 word))"
    from e have d: "?d = js ''?''" unfolding endsWith_def by (rule conjunct2)
    have "(0x3F :: 16 word) \<in> set (js ''?'')" by (simp add: js_def)
    then have "(0x3F :: 16 word) \<in> set ?d" by (simp only: d)
    then have "(0x3F :: 16 word) \<in> set (replicate n 0x78)" by (rule in_set_dropD)
    then show False by simp
  qed
  show ?thesis unfolding getFakeAIReply_def l using h1 h2 h3 h4 by simp
qed

lemma xs_submitted:
  assumes "0 < n"
  shows "messages (run [Change (replicate n 0x78), Render, Submit random] initialState)
         = [\<lparr>role = js ''ai'', content = seedGreeting\<rparr>,
            \<lparr>role = js ''user'', content = replicate n 0x78\<rparr>]"
    and "timers (run [Change (replicate n 0x78), Render, Submit random] initialState)
         = [\<lparr>delay = timeoutDelay random, trimmedInput = replicate n 0x78\<rparr>]"
proof -
  have t: "trim (replicate n 0x78) = replicate n 0x78"
    by (rule trim_replicate) (simp add: isWhiteSpace_def)
  have ne: "replicate n (0x78 :: 16 word) \<noteq> []" using assms by simp
  show "messages (run [Change (replicate n 0x78), Render, Submit random] initialState)
         = [\<lparr>role = js ''ai'', content = seedGreeting\<rparr>,
            \<lparr>role = js ''user'', content = replicate n 0x78\<rparr>]"
    using ne by (simp add: run_def handleSendMsgIn_def renderOf_def Let_def t initialState_def)
  show "timers (run [Change (replicate n 0x78), Render, Submit random] initialState)
         = [\<lparr>delay = timeoutDelay random, trimmedInput = replicate n 0x78\<rparr>]"
    using ne by (simp add: run_def handleSendMsgIn_def renderOf_def Let_def t initialState_def)
qed

lemma xs_replied:
  assumes "0 < n"
  shows "length (content (last (messages
           (run [Change (replicate n 0x78), Render, Submit random, Timeout 0] initialState)))) = n + 36"
proof -
  have "run [Change (replicate n 0x78), Render, Submit random, Timeout 0] initialState
        = dispatch (Timeout 0) (run [Change (replicate n 0x78), Render, Submit random] initialState)"
    by (simp add: run_def)
  then show ?thesis
    by (simp add: xs_submitted [OF assms] timerCallback_def Let_def getFakeAIReply_xs
          length_echoReply)
qed

text \<open>
  Claim C7, as stated: every appended content would have at most 2048 characters, the
  bound being enforced by the submission. The reply to an input of 2048 letters \<open>x\<close>,
  which the text area allows, has 2084 code units; and an input of 2049 letters, once in
  the state, is appended whole.
\<close>

theorem content_length_unbounded:
  "withinMaxLength (Change (replicate 2048 0x78))
   \<and> length (content (last (messages
        (run [Change (replicate 2048 0x78), Render, Submit 0, Timeout 0] initialState)))) = 2048 + 36
   \<and> length (content (last (messages
        (run [Change (replicate 2049 0x78), Render, Submit 0] initialState)))) = 2049"
proof -
  have "withinMaxLength (Change (replicate 2048 0x78))"
    by (simp add: maxLength_def)
  moreover have "length (content (last (messages
        (run [Change (replicate 2048 0x78), Render, Submit 0, Timeout 0] initialState)))) = 2048 + 36"
    by (rule xs_replied) simp
  moreover have "length (content (last (messages
        (run [Change (replicate 2049 0x78), Render, Submit 0] initialState)))) = 2049"
    by (subst xs_submitted) simp_all
  ultimately show ?thesis by blast
qed

theorem content_length_bounds_witness:
  "\<lparr>role = js ''user'', content = js ''hello''\<rparr>
      \<in> set (messages (run [Change (js '' hello ''), Render, Submit 0] initialState))
   \<and> withinMaxLength (Change (js '' hello ''))
   \<and> 1 \<le> length (js ''hello'') \<and> length (js ''hello'') \<le> maxLength
   \<and> trim (input (initialState\<lparr>input := js ''hello''\<rparr>)) \<noteq> []
   \<and> \<not> isLoading (initialState\<lparr>input := js ''hello''\<rparr>)
   \<and> content (last (messages (snd (handleSendMsg 0 (initialState\<lparr>input := js ''hello''\<rparr>)))))
       = trim (input (initialState\<lparr>input := js ''hello''\<rparr>))"
proof -
  let ?m = "\<lparr>role = js ''user'', content = js ''hello''\<rparr>"
  let ?es = "[Change (js '' hello ''), Render, Submit 0]"
  let ?s = "initialState\<lparr>input := js ''hello''\<rparr>"
  have mem: "?m \<in> set (messages (run ?es initialState))"
    by (simp add: run_def handleSendMsgIn_def renderOf_def Let_def initialState_def trim_def js_def
          isWhiteSpace_def)
  have ev: "\<forall>e \<in> set ?es. withinMaxLength e"
    by (simp add: maxLength_def js_def)
  have w: "withinMaxLength (Change (js '' hello ''))"
    by (simp add: maxLength_def js_def)
  note a = hello_accepted [THEN conjunct1] hello_accepted [THEN conjunct2]
  from content_length_bounds [of ?m ?es ?s 0] mem ev a
  have "1 \<le> length (content ?m) \<and> length (content ?m) \<le> maxLength
        \<and> content (last (messages (snd (handleSendMsg 0 ?s)))) = trim (input ?s)"
    by simp
  then have "1 \<le> length (js ''hello'') \<and> length (js ''hello'') \<le> maxLength
        \<and> content (last (messages (snd (handleSendMsg 0 ?s)))) = trim (input ?s)"
    by simp
  with mem w a show ?thesis by blast
qed

end
